theory Spec2Isabelle
  imports Main "HOL-Library.Multiset" "HOL-Library.Sublist"
    "HOL-Library.Char_ord" "HOL-Library.List_Lexorder"
begin

section \<open>Data model\<close>

text \<open>
  One observation of the dashboard's table (app.py, lines 22-27): the columns
  \<open>date\<close>, \<open>location\<close>, \<open>total_cases\<close>, \<open>total_deaths\<close>. A date is the number
  of days since 2020-01-01 (every timestamp of the program is a midnight), a location is
  the byte string of its name, the two counters are Python integers. A table is the list
  of its rows in index order; no column holds a missing value.
\<close>

record row =
  date :: int
  location :: string
  total_cases :: int
  total_deaths :: int

type_synonym table = "row list"

section \<open>Dataset provider\<close>

text \<open>
  The state outside the script: the file \<^verbatim>\<open>covid.pkl\<close> (\<open>None\<close> while it does not
  exist, otherwise the frame it holds; pickling a frame and reading it back yields the
  frame), the memo that \<^verbatim>\<open>@st.cache_data\<close> keeps for the argumentless
  \<^verbatim>\<open>load_data\<close>, and the process-global random generator, given as the sequence of
  the raw draws it has yet to produce.
\<close>

type_synonym rng = "nat \<Rightarrow> int"

record store =
  pickle_file :: "table option"
  cache :: "table option"
  rng :: rng

text \<open>
  Modelled from the spec: \<^verbatim>\<open>np.random.randint(low, high, n)\<close> is library code. It
  yields \<open>n\<close> integers of the half-open interval from \<open>low\<close> to \<open>high\<close> and advances
  the generator past the draws it used.
\<close>

definition randint :: "int \<Rightarrow> int \<Rightarrow> nat \<Rightarrow> rng \<Rightarrow> int list \<times> rng" where
  "randint low high n g =
     (map (\<lambda>i. low + g i mod (high - low)) [0..<n], \<lambda>i. g (i + n))"

text \<open>
  \<^verbatim>\<open>pd.date_range(start, periods=n)\<close>: \<open>n\<close> consecutive days from \<open>start\<close>; and the
  frame built from four columns of one length, row \<open>i\<close> holding entry \<open>i\<close> of each.
\<close>

definition date_range :: "int \<Rightarrow> nat \<Rightarrow> int list" where
  "date_range start periods = map (\<lambda>i. start + int i) [0..<periods]"

definition DataFrame :: "int list \<Rightarrow> string list \<Rightarrow> int list \<Rightarrow> int list \<Rightarrow> table" where
  "DataFrame dates locations cases deaths =
     map (\<lambda>(d, l, c, t). \<lparr>date = d, location = l, total_cases = c, total_deaths = t\<rparr>)
       (zip dates (zip locations (zip cases deaths)))"

text \<open>
  app.py, lines 21-29. Day 0 is 2020-01-01; the dictionary's entries are evaluated in
  the order written, so the cases are drawn before the deaths; the frame is written to
  the pickle file.
\<close>

definition create_local_data :: "store \<Rightarrow> store" where
  "create_local_data s =
     (let dates = date_range 0 600;
          locations = replicate 200 ''India'' @ replicate 200 ''USA'' @ replicate 200 ''UK'';
          (cases, g1) = randint 100 100000 600 (rng s);
          (deaths, g2) = randint 1 2000 600 g1;
          df = DataFrame dates locations cases deaths
      in s\<lparr>pickle_file := Some df, rng := g2\<rparr>)"

text \<open>
  app.py, lines 35-38, the body of \<^verbatim>\<open>load_data\<close>: create the file when it does not
  exist, then read it.
\<close>

definition load_data_body :: "store \<Rightarrow> table \<times> store" where
  "load_data_body s =
     (let s' = (if pickle_file s = None then create_local_data s else s)
      in case pickle_file s' of
           Some df \<Rightarrow> (df, s')
         | None \<Rightarrow> ([], s'))"

text \<open>
  app.py, line 34: under \<^verbatim>\<open>@st.cache_data\<close> a call returns the memoised result when
  there is one, and otherwise runs the body and memoises what it returns. (The
  \<open>None\<close> branch of the body above is never taken: \<open>create_local_data\<close> always leaves
  a file.)
\<close>

definition load_data :: "store \<Rightarrow> table \<times> store" where
  "load_data s =
     (case cache s of
        Some df \<Rightarrow> (df, s)
      | None \<Rightarrow> (let (df, s') = load_data_body s in (df, s'\<lparr>cache := Some df\<rparr>)))"

text \<open>
  app.py, lines 47 and 48: the bounds of the date picker's default range, for a frame
  with at least one row.
\<close>

definition min_date :: "table \<Rightarrow> int" where
  "min_date df = Min (set (map date df))"

definition max_date :: "table \<Rightarrow> int" where
  "max_date df = Max (set (map date df))"

section \<open>Filter stage\<close>

text \<open>
  app.py, line 53:
  \<^verbatim>\<open>df_filtered = df[(df["date"] >= start_date) & (df["date"] <= end_date)]\<close>
  A boolean mask selects the rows where it holds, in index order, into a new frame.
\<close>

definition df_filtered :: "table \<Rightarrow> int \<Rightarrow> int \<Rightarrow> table" where
  "df_filtered df start_date end_date =
     filter (\<lambda>r. date r \<ge> start_date \<and> date r \<le> end_date) df"

section \<open>Aggregation stage\<close>

text \<open>
  \<^verbatim>\<open>DataFrame.sort_values\<close> is code of the tabular library, not of this repository.
  The library sorts one column with the algorithm named by its argument \<^verbatim>\<open>kind\<close>;
  app.py passes none at lines 59 and 71, so the library's default applies, which the
  library documents as not stable. The algorithm is therefore the parameter \<open>alg\<close> of
  both sorts. What the program can rely on is the contract \<open>sorter\<close>: the result holds
  the rows of the frame, in ascending order of the key. The order of rows with equal
  keys is the algorithm's own.
\<close>

type_synonym algorithm = "(row \<Rightarrow> int) \<Rightarrow> table \<Rightarrow> table"

definition sorter :: "algorithm \<Rightarrow> bool" where
  "sorter alg = (\<forall>key df. mset (alg key df) = mset df \<and> sorted (map key (alg key df)))"

definition sort_values :: "algorithm \<Rightarrow> (row \<Rightarrow> int) \<Rightarrow> table \<Rightarrow> table" where
  "sort_values alg key df = alg key df"

text \<open>
  With \<^verbatim>\<open>ascending=False\<close> the rows are reversed, sorted ascending by the algorithm
  and reversed again. Over all algorithms of the contract this yields every arrangement
  of the rows in descending order of the key.
\<close>

definition sort_values_desc :: "algorithm \<Rightarrow> (row \<Rightarrow> int) \<Rightarrow> table \<Rightarrow> table" where
  "sort_values_desc alg key df = rev (alg key (rev df))"

text \<open>
  Two algorithms of the contract. The first is stable (what \<^verbatim>\<open>kind='stable'\<close> would
  request): rows with equal keys stay in input order. The second is not: it leaves rows
  with equal keys in the reverse of their input order.
\<close>

definition stable_sort :: algorithm where
  "stable_sort key df = sort_key key df"

definition reversing_sort :: algorithm where
  "reversing_sort key df = sort_key key (rev df)"

text \<open>
  \<^verbatim>\<open>groupby("location", as_index=False).last()\<close>: the group keys are the distinct
  locations in ascending order (grouping sorts its keys), and each group contributes its
  last row in the order of the frame it is applied to. With no missing values in any
  column, the last value of every column is the last row of the group.
\<close>

definition groupby_last :: "table \<Rightarrow> table" where
  "groupby_last df =
     map (\<lambda>l. last (filter (\<lambda>r. location r = l) df)) (sort (remdups (map location df)))"

text \<open>
  app.py, line 59:
  \<^verbatim>\<open>latest = df_filtered.sort_values("date").groupby("location", as_index=False).last()\<close>
\<close>

definition latest :: "algorithm \<Rightarrow> table \<Rightarrow> table" where
  "latest alg df_f = groupby_last (sort_values alg date df_f)"

text \<open>
  The summary metrics of lines 62 and 63: \<^verbatim>\<open>len(df_filtered)\<close> and
  \<^verbatim>\<open>latest["location"].nunique()\<close>.
\<close>

definition rows_metric :: "table \<Rightarrow> nat" where
  "rows_metric df_f = length df_f"

definition countries_metric :: "table \<Rightarrow> nat" where
  "countries_metric lat = length (remdups (map location lat))"

section \<open>Ranking stage\<close>

text \<open>
  app.py, line 71:
  \<^verbatim>\<open>top_countries = latest.sort_values("total_cases", ascending=False).head(top_n)\<close>
  The slider of line 55 yields a natural number, so \<^verbatim>\<open>head\<close> keeps the first
  \<open>top_n\<close> rows (all of them when there are fewer).
\<close>

definition top_countries :: "algorithm \<Rightarrow> table \<Rightarrow> nat \<Rightarrow> table" where
  "top_countries alg lat top_n = take top_n (sort_values_desc alg total_cases lat)"

section \<open>Download artifact\<close>

text \<open>
  Modelled from the spec: \<^verbatim>\<open>DataFrame.to_csv(index=False)\<close> is library code. Sections
  4.5 and 6 of the specification give its output: comma-separated text with the header
  row \<^verbatim>\<open>date,location,total_cases,total_deaths\<close>, no index column, one line per row. A
  field that holds a comma, a double quote or a line break is enclosed in double quotes,
  with every double quote inside it doubled; every line ends with a line feed. Integers
  are written in decimal. The text of a date is the library's: it is the parameter
  \<open>strftime\<close> of the encoder.
\<close>

definition digit_char :: "nat \<Rightarrow> char" where
  "digit_char d = ''0123456789'' ! d"

fun nat_digits :: "nat \<Rightarrow> string" where
  "nat_digits n =
     (if n < 10 then [digit_char n] else nat_digits (n div 10) @ [digit_char (n mod 10)])"

definition str_int :: "int \<Rightarrow> string" where
  "str_int i = (if i < 0 then CHR ''-'' # nat_digits (nat (- i)) else nat_digits (nat i))"

definition special :: "char \<Rightarrow> bool" where
  "special c = (c = CHR '','' \<or> c = CHR 0x22 \<or> c = CHR 0x0A \<or> c = CHR 0x0D)"

definition escape_quotes :: "string \<Rightarrow> string" where
  "escape_quotes f = concat (map (\<lambda>c. if c = CHR 0x22 then [CHR 0x22, CHR 0x22] else [c]) f)"

definition quote_field :: "string \<Rightarrow> string" where
  "quote_field f =
     (if list_ex special f then CHR 0x22 # escape_quotes f @ [CHR 0x22] else f)"

fun join_fields :: "string list \<Rightarrow> string" where
  "join_fields [] = []"
| "join_fields [f] = f"
| "join_fields (f # fs) = f @ CHR '','' # join_fields fs"

definition csv_line :: "string list \<Rightarrow> string" where
  "csv_line fs = join_fields (map quote_field fs) @ [CHR 0x0A]"

definition csv_header :: "string list" where
  "csv_header = [''date'', ''location'', ''total_cases'', ''total_deaths'']"

definition row_fields :: "(int \<Rightarrow> string) \<Rightarrow> row \<Rightarrow> string list" where
  "row_fields strftime r =
     [strftime (date r), location r, str_int (total_cases r), str_int (total_deaths r)]"

definition to_csv :: "(int \<Rightarrow> string) \<Rightarrow> table \<Rightarrow> string" where
  "to_csv strftime d = csv_line csv_header @ concat (map (\<lambda>r. csv_line (row_fields strftime r)) d)"

text \<open>
  app.py, lines 110-112: \<^verbatim>\<open>d.to_csv(index=False).encode("utf-8")\<close>. Strings are byte
  strings here, the locations in UTF-8 already, so the encoding changes nothing.
\<close>

definition to_csv_bytes :: "(int \<Rightarrow> string) \<Rightarrow> table \<Rightarrow> string" where
  "to_csv_bytes strftime d = to_csv strftime d"

text \<open>
  Modelled from the spec: the parser of testable property 4 is not in the repository.
  It is the reader for the format above: a scanner over the characters with the state of
  the field it is in, then the header check and the conversion of each record of four
  fields to a row. The reading of a date is the parameter \<open>strptime\<close>.
\<close>

datatype scan_state = StartRecord | StartField | InField | InQuoted | QuoteSeen

fun csv_scan ::
  "scan_state \<Rightarrow> string \<Rightarrow> string list \<Rightarrow> string list list \<Rightarrow> string \<Rightarrow> string list list option"
where
  "csv_scan st fld rec recs [] = (if st = StartRecord then Some (rev recs) else None)"
| "csv_scan st fld rec recs (c # cs) =
     (case st of
        InField \<Rightarrow>
          if c = CHR '','' then csv_scan StartField [] (rev fld # rec) recs cs
          else if c = CHR 0x0A then csv_scan StartRecord [] [] (rev (rev fld # rec) # recs) cs
          else csv_scan InField (c # fld) rec recs cs
      | InQuoted \<Rightarrow>
          if c = CHR 0x22 then csv_scan QuoteSeen fld rec recs cs
          else csv_scan InQuoted (c # fld) rec recs cs
      | QuoteSeen \<Rightarrow>
          if c = CHR 0x22 then csv_scan InQuoted (c # fld) rec recs cs
          else if c = CHR '','' then csv_scan StartField [] (rev fld # rec) recs cs
          else if c = CHR 0x0A then csv_scan StartRecord [] [] (rev (rev fld # rec) # recs) cs
          else None
      | _ \<Rightarrow>
          if c = CHR 0x22 then csv_scan InQuoted [] rec recs cs
          else if c = CHR '','' then csv_scan StartField [] ([] # rec) recs cs
          else if c = CHR 0x0A then csv_scan StartRecord [] [] (rev ([] # rec) # recs) cs
          else csv_scan InField [c] rec recs cs)"

definition is_digit :: "char \<Rightarrow> bool" where
  "is_digit c = (48 \<le> (of_char c :: nat) \<and> (of_char c :: nat) < 58)"

definition digit_val :: "char \<Rightarrow> nat" where
  "digit_val c = of_char c - 48"

definition parse_nat :: "string \<Rightarrow> nat option" where
  "parse_nat ds =
     (if ds \<noteq> [] \<and> list_all is_digit ds
      then Some (foldl (\<lambda>a c. 10 * a + digit_val c) 0 ds) else None)"

definition parse_int :: "string \<Rightarrow> int option" where
  "parse_int ds =
     (case ds of
        [] \<Rightarrow> None
      | c # cs \<Rightarrow>
          if c = CHR ''-'' then map_option (\<lambda>n. - int n) (parse_nat cs)
          else map_option int (parse_nat ds))"

definition row_of_fields :: "(string \<Rightarrow> int option) \<Rightarrow> string list \<Rightarrow> row option" where
  "row_of_fields strptime fs =
     (case fs of
        [d, l, c, t] \<Rightarrow>
          (case (strptime d, parse_int c, parse_int t) of
             (Some d', Some c', Some t') \<Rightarrow>
               Some \<lparr>date = d', location = l, total_cases = c', total_deaths = t'\<rparr>
           | _ \<Rightarrow> None)
      | _ \<Rightarrow> None)"

definition read_csv :: "(string \<Rightarrow> int option) \<Rightarrow> string \<Rightarrow> table option" where
  "read_csv strptime bytes =
     (case csv_scan StartRecord [] [] [] bytes of
        Some (h # recs) \<Rightarrow>
          if h = csv_header then those (map (row_of_fields strptime) recs) else None
      | _ \<Rightarrow> None)"

text \<open>
  Modelled from the spec: the library's text of a date whose time of day is midnight is
  its ISO 8601 calendar date, \<^verbatim>\<open>YYYY-MM-DD\<close>. Day 0 is 2020-01-01, day 18262 of the
  epoch of 1970-01-01; the conversion between a day number and the proleptic Gregorian
  year, month and day counts days from 0000-03-01 in eras of 400 years.
\<close>

definition civil_from_days :: "int \<Rightarrow> int \<times> int \<times> int" where
  "civil_from_days z0 =
     (let z = z0 + 719468;
          era = z div 146097;
          doe = z - era * 146097;
          yoe = (doe - doe div 1460 + doe div 36524 - doe div 146096) div 365;
          doy = doe - (365 * yoe + yoe div 4 - yoe div 100);
          mp = (5 * doy + 2) div 153;
          d = doy - (153 * mp + 2) div 5 + 1;
          m = (if mp < 10 then mp + 3 else mp - 9);
          y = yoe + era * 400 + (if m \<le> 2 then 1 else 0)
      in (y, m, d))"

definition days_from_civil :: "int \<Rightarrow> int \<Rightarrow> int \<Rightarrow> int" where
  "days_from_civil y0 m d =
     (let y = (if m \<le> 2 then y0 - 1 else y0);
          era = y div 400;
          yoe = y - era * 400;
          doy = (153 * (if m > 2 then m - 3 else m + 9) + 2) div 5 + d - 1;
          doe = yoe * 365 + yoe div 4 - yoe div 100 + doy
      in era * 146097 + doe - 719468)"

definition zero_pad :: "nat \<Rightarrow> string \<Rightarrow> string" where
  "zero_pad w ds = replicate (w - length ds) (CHR ''0'') @ ds"

definition isoformat :: "int \<Rightarrow> string" where
  "isoformat day =
     (let (y, m, d) = civil_from_days (day + 18262)
      in zero_pad 4 (str_int y) @ ''-'' @ zero_pad 2 (str_int m) @ ''-'' @ zero_pad 2 (str_int d))"

definition fromisoformat :: "string \<Rightarrow> int option" where
  "fromisoformat ds =
     (if length ds = 10 \<and> ds ! 4 = CHR ''-'' \<and> ds ! 7 = CHR ''-''
      then (case (parse_nat (take 4 ds), parse_nat (take 2 (drop 5 ds)), parse_nat (drop 8 ds)) of
              (Some y, Some m, Some d) \<Rightarrow>
                Some (days_from_civil (int y) (int m) (int d) - 18262)
            | _ \<Rightarrow> None)
      else None)"

section \<open>The script\<close>

text \<open>
  app.py, lines 40-112, without the chart calls: the values the script computes from the
  loaded frame, the two dates of the picker and the slider's \<open>top_n\<close>. The frame
  \<open>df\<close> is only read; every stage builds a new frame.
\<close>

record vars =
  v_df :: table
  v_df_filtered :: table
  v_latest :: table
  v_rows :: nat
  v_countries :: nat
  v_top_countries :: table
  v_download :: string

definition script :: "algorithm \<Rightarrow> (int \<Rightarrow> string) \<Rightarrow> table \<Rightarrow> int \<Rightarrow> int \<Rightarrow> nat \<Rightarrow> vars" where
  "script alg strftime df start_date end_date top_n =
     (let df_f = df_filtered df start_date end_date;
          lat = latest alg df_f
      in \<lparr>v_df = df,
          v_df_filtered = df_f,
          v_latest = lat,
          v_rows = rows_metric df_f,
          v_countries = countries_metric lat,
          v_top_countries = top_countries alg lat top_n,
          v_download = to_csv_bytes strftime df_f\<rparr>)"

section \<open>Sample table\<close>

text \<open>
  A small table used to evaluate the stages: the two rows of \<open>''USA''\<close> share
  their date, and the latest rows of \<open>''India''\<close> and \<open>''USA''\<close> share the
  value 10 of \<open>total_cases\<close>.
\<close>

definition sample :: table where
  "sample =
     [\<lparr>date = 3, location = ''USA'', total_cases = 7, total_deaths = 1\<rparr>,
      \<lparr>date = 1, location = ''India'', total_cases = 10, total_deaths = 2\<rparr>,
      \<lparr>date = 3, location = ''USA'', total_cases = 10, total_deaths = 3\<rparr>,
      \<lparr>date = 2, location = ''UK'', total_cases = 12, total_deaths = 4\<rparr>,
      \<lparr>date = 0, location = ''India'', total_cases = 12, total_deaths = 5\<rparr>]"

text \<open>
  A table whose locations need quoting in the download: one holds a comma and double
  quotes, one a line feed, one is empty.
\<close>

definition quoted_sample :: table where
  "quoted_sample =
     [\<lparr>date = 199, location = ''Korea, '' @ [CHR 0x22] @ ''South'' @ [CHR 0x22],
        total_cases = 100, total_deaths = 0\<rparr>,
      \<lparr>date = 599, location = ''New'' @ [CHR 0x0A] @ ''Zealand'',
        total_cases = 99999, total_deaths = 1999\<rparr>,
      \<lparr>date = - 1, location = [], total_cases = - 5, total_deaths = 12\<rparr>]"

text \<open>
  A table with ties in \<open>total_cases\<close>: four locations on one day, two with the value 1
  and two with the value 2.
\<close>

definition tied :: table where
  "tied =
     [\<lparr>date = 0, location = ''A'', total_cases = 1, total_deaths = 0\<rparr>,
      \<lparr>date = 0, location = ''B'', total_cases = 1, total_deaths = 1\<rparr>,
      \<lparr>date = 0, location = ''C'', total_cases = 2, total_deaths = 2\<rparr>,
      \<lparr>date = 0, location = ''D'', total_cases = 2, total_deaths = 3\<rparr>]"

text \<open>
  A state in which nothing has run yet: no cache file, no memo, and a generator whose
  \<open>i\<close>-th pending raw draw is \<open>i\<close>.
\<close>

definition fresh_store :: store where
  "fresh_store = \<lparr>pickle_file = None, cache = None, rng = int\<rparr>"

section \<open>Properties of the filter stage\<close>

text \<open>
  C2: for every table \<open>T\<close> and dates \<open>a\<close>, \<open>b\<close>, the filter returns exactly the rows
  of \<open>T\<close> whose date lies in the closed interval from \<open>a\<close> to \<open>b\<close>: every row
  occurs in the result as often as it occurs in \<open>T\<close> when its date is in the interval
  and not at all otherwise, so nothing is dropped, added or duplicated.
\<close>

theorem filter_exact:
  "mset (df_filtered T a b) = filter_mset (\<lambda>r. a \<le> date r \<and> date r \<le> b) (mset T) \<and>
   set (df_filtered T a b) = {r \<in> set T. a \<le> date r \<and> date r \<le> b}"
  by (simp add: df_filtered_def)

theorem filter_exact_witness:
  "df_filtered sample 1 2 =
     [\<lparr>date = 1, location = ''India'', total_cases = 10, total_deaths = 2\<rparr>,
      \<lparr>date = 2, location = ''UK'', total_cases = 12, total_deaths = 4\<rparr>] \<and>
   set (df_filtered sample 1 2) = {r \<in> set sample. 1 \<le> date r \<and> date r \<le> 2}"
  using filter_exact [of sample 1 2]
  by (simp add: sample_def df_filtered_def)

section \<open>The contract of the sorting algorithm\<close>

lemma sorter_mset: "sorter alg \<Longrightarrow> mset (alg key df) = mset df"
  by (simp add: sorter_def)

lemma sorter_set: "sorter alg \<Longrightarrow> set (alg key df) = set df"
  using sorter_mset [of alg key df] by (metis set_mset_mset)

lemma sorter_sorted: "sorter alg \<Longrightarrow> sorted (map key (alg key df))"
  by (simp add: sorter_def)

lemma sorter_length: "sorter alg \<Longrightarrow> length (alg key df) = length df"
  using sorter_mset [of alg key df] by (metis size_mset)

lemma sorter_Nil: "sorter alg \<Longrightarrow> alg key [] = []"
  using sorter_length [of alg key "[]"] by simp

lemma sorter_stable_sort: "sorter stable_sort"
  by (simp add: sorter_def stable_sort_def)

lemma sorter_reversing_sort: "sorter reversing_sort"
  by (simp add: sorter_def reversing_sort_def)

lemma sorted_arrangement_unique:
  fixes key :: "'a \<Rightarrow> int"
  assumes m: "mset xs = mset ys"
    and sx: "sorted (map key xs)" and sy: "sorted (map key ys)"
    and d: "distinct (map key xs)"
  shows "xs = ys"
proof -
  have mk: "mset (map key xs) = mset (map key ys)"
    using m by (metis mset_map)
  then have dy: "distinct (map key ys)"
    using d by (metis mset_eq_imp_distinct_iff)
  have "set (map key xs) = set (map key ys)"
    using mk by (rule mset_eq_setD)
  then have keys: "map key xs = map key ys"
    using sx sy d dy by (intro sorted_distinct_set_unique)
  have "set xs = set ys"
    using m by (rule mset_eq_setD)
  moreover have "inj_on key (set xs)"
    using d by (simp add: distinct_map)
  ultimately have "inj_on key (set xs \<union> set ys)" by simp
  then show ?thesis
    using keys by (simp add: inj_on_map_eq_map)
qed

lemma sorter_determined:
  assumes "sorter alg" "sorter alg'" "distinct (map key df)"
  shows "alg key df = alg' key df"
proof -
  have "mset (alg key df) = mset (alg' key df)"
    using assms(1,2) by (simp add: sorter_mset)
  moreover have "distinct (map key (alg key df))"
    using assms(1,3) sorter_mset [of alg key df]
    by (metis mset_eq_imp_distinct_iff mset_map)
  ultimately show ?thesis
    using assms(1,2) by (intro sorted_arrangement_unique [of _ _ key]) (simp_all add: sorter_sorted)
qed

lemma sorter_sorted_id:
  assumes "sorter alg" "sorted (map key df)" "distinct (map key df)"
  shows "alg key df = df"
  using assms
  by (intro sorted_arrangement_unique [of _ _ key])
    (simp_all add: sorter_mset sorter_sorted,
      metis mset_eq_imp_distinct_iff mset_map sorter_mset)

section \<open>Properties of the aggregation stage\<close>

lemma map_location_groupby_last:
  "map location (groupby_last df) = sort (remdups (map location df))"
proof -
  have "\<And>l. l \<in> set (sort (remdups (map location df))) \<Longrightarrow>
          location (last (filter (\<lambda>r. location r = l) df)) = l"
  proof -
    fix l assume "l \<in> set (sort (remdups (map location df)))"
    then have "filter (\<lambda>r. location r = l) df \<noteq> []"
      by (auto simp: filter_empty_conv)
    then have "last (filter (\<lambda>r. location r = l) df) \<in> set (filter (\<lambda>r. location r = l) df)"
      by (rule last_in_set)
    then show "location (last (filter (\<lambda>r. location r = l) df)) = l" by simp
  qed
  then have "map (\<lambda>l. location (last (filter (\<lambda>r. location r = l) df)))
          (sort (remdups (map location df))) = sort (remdups (map location df))"
    by (intro map_idI)
  then show ?thesis
    by (simp add: groupby_last_def o_def)
qed

lemma groupby_last_row:
  assumes "r \<in> set (groupby_last df)"
  shows "r \<in> set df \<and> r = last (filter (\<lambda>s. location s = location r) df)"
proof -
  from assms obtain l where l: "l \<in> set (map location df)"
    and r: "r = last (filter (\<lambda>s. location s = l) df)"
    by (auto simp: groupby_last_def)
  from l have ne: "filter (\<lambda>s. location s = l) df \<noteq> []"
    by (auto simp: filter_empty_conv)
  then have "r \<in> set (filter (\<lambda>s. location s = l) df)"
    unfolding r by (rule last_in_set)
  then have "r \<in> set df" "location r = l" by simp_all
  with r show ?thesis by simp
qed

lemma sorted_le_last:
  fixes xs :: "'a::linorder list"
  assumes "sorted xs" "x \<in> set xs"
  shows "x \<le> last xs"
proof -
  from assms(2) have "xs \<noteq> []" by auto
  then have "xs = butlast xs @ [last xs]" by simp
  then have "sorted (butlast xs @ [last xs])" "x \<in> set (butlast xs @ [last xs])"
    using assms by simp_all
  then show ?thesis
    by (auto simp: sorted_append)
qed

lemma sorted_last_filter_max:
  assumes "sorted (map key xs)" "s \<in> set xs" "P s"
  shows "key s \<le> key (last (filter P xs))"
proof -
  have srt: "sorted (map key (filter P xs))"
    using assms(1) by (rule sorted_filter)
  have mem: "key s \<in> set (map key (filter P xs))"
    using assms(2,3) by auto
  have ne: "filter P xs \<noteq> []"
    using assms(2,3) by (auto simp: filter_empty_conv)
  have "key s \<le> last (map key (filter P xs))"
    using srt mem by (rule sorted_le_last)
  then show ?thesis using ne by (simp add: last_map)
qed

lemma latest_locations:
  assumes "sorter alg"
  shows "map location (latest alg T) = sort (remdups (map location T))"
proof -
  have "set (map location (alg date T)) = set (map location T)"
    using assms by (simp add: sorter_set)
  then have "sort (remdups (map location (alg date T))) = sort (remdups (map location T))"
    by (intro sorted_distinct_set_unique) simp_all
  then show ?thesis
    by (simp add: latest_def sort_values_def map_location_groupby_last)
qed

lemma latest_row_max:
  assumes "sorter alg" "r \<in> set (latest alg T)"
  shows "r \<in> set T \<and> date r = Max (date ` {s \<in> set T. location s = location r})"
proof -
  let ?S = "alg date T"
  have set_S: "set ?S = set T" and sorted_S: "sorted (map date ?S)"
    using assms(1) by (simp_all add: sorter_set sorter_sorted)
  from assms(2) have r: "r \<in> set ?S" "r = last (filter (\<lambda>s. location s = location r) ?S)"
    using groupby_last_row [of r ?S] by (simp_all add: latest_def sort_values_def)
  from r(1) have mem: "r \<in> set T" by (simp add: set_S)
  have up: "date s \<le> date r" if "s \<in> set T" "location s = location r" for s
  proof -
    have "date s \<le> date (last (filter (\<lambda>s. location s = location r) ?S))"
      using that sorted_S by (intro sorted_last_filter_max) (simp_all add: set_S)
    with r(2) show ?thesis by simp
  qed
  have "Max (date ` {s \<in> set T. location s = location r}) = date r"
    using mem up by (intro Max_eqI) auto
  with mem show ?thesis by simp
qed

lemma latest_Nil: "sorter alg \<Longrightarrow> latest alg [] = []"
  by (simp add: latest_def groupby_last_def sort_values_def sorter_Nil)

text \<open>
  C1: for every table \<open>T\<close>, whatever algorithm of the contract sorts it, the
  latest-per-location table has exactly one row per distinct location of \<open>T\<close> (its
  locations are pairwise distinct, they are the locations of \<open>T\<close>, and there are as many
  rows as distinct locations); every returned row is a row of \<open>T\<close> whose date is the
  maximum date among the rows of \<open>T\<close> with its location; and the empty table yields the
  empty table.
\<close>

theorem latest_per_location_correct:
  assumes "sorter alg"
  shows "distinct (map location (latest alg T)) \<and>
   set (map location (latest alg T)) = set (map location T) \<and>
   length (latest alg T) = card (set (map location T)) \<and>
   (\<forall>r \<in> set (latest alg T).
      r \<in> set T \<and> date r = Max (date ` {s \<in> set T. location s = location r})) \<and>
   latest alg [] = []"
proof -
  have loc: "map location (latest alg T) = sort (remdups (map location T))"
    using assms by (rule latest_locations)
  have d: "distinct (map location (latest alg T))"
    unfolding loc by simp
  have s: "set (map location (latest alg T)) = set (map location T)"
    unfolding loc by simp
  have "length (map location (latest alg T)) = card (set (map location T))"
    unfolding loc by (simp add: length_remdups_card_conv)
  then have l: "length (latest alg T) = card (set (map location T))"
    by simp
  have m: "\<forall>r \<in> set (latest alg T).
      r \<in> set T \<and> date r = Max (date ` {s \<in> set T. location s = location r})"
    using latest_row_max [OF assms] by blast
  have e: "latest alg [] = []"
    using assms by (rule latest_Nil)
  from d s l m e show ?thesis by blast
qed

theorem latest_per_location_correct_witness:
  "map (\<lambda>r. (location r, date r)) (latest reversing_sort sample) =
     [(''India'', 1), (''UK'', 2), (''USA'', 3)] \<and>
   length (latest reversing_sort sample) = card (set (map location sample)) \<and>
   Max (date ` {s \<in> set sample. location s = ''USA''}) = 3 \<and>
   latest reversing_sort [] = []"
  using latest_per_location_correct [OF sorter_reversing_sort, of sample]
  by (simp add: sample_def latest_def groupby_last_def sort_values_def reversing_sort_def)

section \<open>Properties of the ranking stage\<close>

lemma sort_values_desc_mset: "sorter alg \<Longrightarrow> mset (sort_values_desc alg key T) = mset T"
  by (simp add: sort_values_desc_def sorter_mset)

lemma sort_values_desc_sorted:
  "sorter alg \<Longrightarrow> sorted (rev (map key (sort_values_desc alg key T)))"
  by (simp add: sort_values_desc_def rev_map sorter_sorted)

lemma sorted_desc_append:
  fixes f :: "'a \<Rightarrow> int"
  assumes "sorted (rev (map f (xs @ ys)))"
  shows "sorted (rev (map f xs))" and "\<forall>s \<in> set ys. \<forall>r \<in> set xs. f s \<le> f r"
  using assms by (auto simp: sorted_append)

lemma top_countries_Nil: "sorter alg \<Longrightarrow> top_countries alg [] n = []"
  by (simp add: top_countries_def sort_values_desc_def sorter_Nil)

text \<open>
  C3: for every table \<open>T\<close> and every \<open>n\<close>, whatever algorithm of the contract sorts it,
  the ranking returns \<open>min n |T|\<close> rows, in descending order of \<open>total_cases\<close>; the
  returned rows are rows of \<open>T\<close>, and each of them has at least the \<open>total_cases\<close> of
  every row of \<open>T\<close> that is not returned; the empty table yields the empty table for
  every \<open>n\<close>.
\<close>

theorem top_n_correct:
  assumes "sorter alg"
  shows "length (top_countries alg T n) = min n (length T) \<and>
   sorted (rev (map total_cases (top_countries alg T n))) \<and>
   mset (top_countries alg T n) \<subseteq># mset T \<and>
   (\<forall>r \<in># mset (top_countries alg T n). \<forall>s \<in># mset T - mset (top_countries alg T n).
      total_cases s \<le> total_cases r) \<and>
   top_countries alg [] n = []"
proof -
  let ?S = "sort_values_desc alg total_cases T"
  have split: "?S = take n ?S @ drop n ?S" by simp
  have len: "length (top_countries alg T n) = min n (length T)"
    using assms by (simp add: top_countries_def sort_values_desc_def min.commute sorter_length)
  have "sorted (rev (map total_cases (take n ?S @ drop n ?S)))"
    using sort_values_desc_sorted [OF assms, of total_cases T] by simp
  then have srt: "sorted (rev (map total_cases (take n ?S)))"
    and cut: "\<forall>s \<in> set (drop n ?S). \<forall>r \<in> set (take n ?S). total_cases s \<le> total_cases r"
    by (rule sorted_desc_append)+
  have "mset T = mset (take n ?S) + mset (drop n ?S)"
    using sort_values_desc_mset [OF assms, of total_cases T] split
    by (metis mset_append)
  then have sub: "mset (take n ?S) \<subseteq># mset T"
    and rest: "mset T - mset (take n ?S) = mset (drop n ?S)"
    by simp_all
  have emp: "top_countries alg [] n = []"
    using assms by (rule top_countries_Nil)
  from len srt cut sub rest emp show ?thesis
    by (simp add: top_countries_def)
qed

theorem top_n_correct_witness:
  "map total_cases (top_countries reversing_sort sample 3) = [12, 12, 10] \<and>
   length (top_countries reversing_sort sample 3) = min 3 (length sample) \<and>
   mset (top_countries reversing_sort sample 3) \<subseteq># mset sample \<and>
   top_countries reversing_sort [] 3 = []"
  using top_n_correct [OF sorter_reversing_sort, of sample 3]
  by (simp add: sample_def top_countries_def sort_values_desc_def reversing_sort_def)

section \<open>Rows with equal keys\<close>

lemma last_filter_last:
  assumes "xs \<noteq> []" "P (last xs)"
  shows "last (filter P xs) = last xs"
proof -
  from assms(1) have "xs = butlast xs @ [last xs]" by simp
  then have "filter P xs = filter P (butlast xs) @ filter P [last xs]"
    by (metis filter_append)
  with assms(2) show ?thesis by simp
qed

lemma stable_sort_ties:
  "filter (\<lambda>r. key r = k) (sort_values stable_sort key T) = filter (\<lambda>r. key r = k) T"
  by (simp add: sort_values_def stable_sort_def sort_key_stable)

lemma stable_sort_desc_ties:
  "filter (\<lambda>r. key r = k) (sort_values_desc stable_sort key T) = filter (\<lambda>r. key r = k) T"
proof -
  have "filter (\<lambda>r. key r = k) (sort_key key (rev T)) = filter (\<lambda>r. key r = k) (rev T)"
    by (rule sort_key_stable)
  then have "rev (filter (\<lambda>r. key r = k) (sort_key key (rev T))) = filter (\<lambda>r. key r = k) T"
    by (simp add: rev_filter)
  then show ?thesis
    by (simp add: sort_values_desc_def stable_sort_def rev_filter)
qed

lemma stable_latest_row:
  assumes "r \<in> set (latest stable_sort T)"
  shows "r = last (filter (\<lambda>s. location s = location r \<and> date s = date r) T)"
proof -
  let ?S = "sort_values stable_sort date T"
  let ?F = "filter (\<lambda>s. location s = location r) ?S"
  from assms have mem: "r \<in> set ?S" and r: "r = last ?F"
    using groupby_last_row [of r ?S] by (simp_all add: latest_def)
  from mem have ne: "?F \<noteq> []"
    by (auto simp: filter_empty_conv)
  have "last (filter (\<lambda>s. date s = date r) ?F) = last ?F"
    using ne r by (intro last_filter_last) simp_all
  moreover have "filter (\<lambda>s. date s = date r) ?F =
      filter (\<lambda>s. location s = location r) (filter (\<lambda>s. date s = date r) ?S)"
    by (simp add: conj_commute)
  moreover have "filter (\<lambda>s. date s = date r) ?S = filter (\<lambda>s. date s = date r) T"
    by (rule stable_sort_ties)
  ultimately have "last (filter (\<lambda>s. location s = location r)
      (filter (\<lambda>s. date s = date r) T)) = last ?F"
    by simp
  with r show ?thesis by (simp add: conj_commute)
qed

lemma group_keys:
  assumes "sorter alg"
  shows "sort (remdups (map location (alg key T))) = sort (remdups (map location T))"
proof -
  have "set (map location (alg key T)) = set (map location T)"
    using assms by (simp add: sorter_set)
  then show ?thesis
    by (intro sorted_distinct_set_unique) simp_all
qed

lemma latest_eq_map:
  assumes "sorter alg"
  shows "latest alg T =
    map (\<lambda>l. last (filter (\<lambda>r. location r = l) (alg date T))) (sort (remdups (map location T)))"
  unfolding latest_def sort_values_def groupby_last_def group_keys [OF assms] ..

lemma latest_kept:
  assumes a: "sorter alg" and l: "l \<in> set (map location T)"
  defines "r \<equiv> last (filter (\<lambda>s. location s = l) (alg date T))"
  shows "r \<in> set T" and "location r = l"
    and "date r = Max (date ` {s \<in> set T. location s = l})"
proof -
  let ?S = "alg date T"
  have set_S: "set ?S = set T" and sorted_S: "sorted (map date ?S)"
    using a by (simp_all add: sorter_set sorter_sorted)
  from l have "filter (\<lambda>s. location s = l) ?S \<noteq> []"
    by (auto simp: filter_empty_conv set_S)
  then have "r \<in> set (filter (\<lambda>s. location s = l) ?S)"
    unfolding r_def by (rule last_in_set)
  then show mem: "r \<in> set T" and loc: "location r = l"
    by (simp_all add: set_S)
  have up: "date s \<le> date r" if "s \<in> set T" "location s = l" for s
    unfolding r_def using sorted_S that
    by (intro sorted_last_filter_max) (simp_all add: set_S)
  show "date r = Max (date ` {s \<in> set T. location s = l})"
    using mem loc up by (intro Max_eqI [symmetric]) auto
qed

lemma latest_determined:
  assumes a: "sorter alg" and a': "sorter alg'" and m: "mset T' = mset T"
    and d: "distinct (map (\<lambda>r. (location r, date r)) T)"
  shows "latest alg' T' = latest alg T"
proof -
  have sets: "set T' = set T"
    using m by (rule mset_eq_setD)
  have inj: "inj_on (\<lambda>r. (location r, date r)) (set T)"
    using d by (simp add: distinct_map)
  have keys: "sort (remdups (map location T')) = sort (remdups (map location T))"
    using sets by (intro sorted_distinct_set_unique) simp_all
  have "last (filter (\<lambda>r. location r = l) (alg' date T')) =
      last (filter (\<lambda>r. location r = l) (alg date T))"
    if "l \<in> set (sort (remdups (map location T)))" for l
  proof -
    let ?r = "last (filter (\<lambda>r. location r = l) (alg date T))"
    let ?r' = "last (filter (\<lambda>r. location r = l) (alg' date T'))"
    from that have l: "l \<in> set (map location T)" and l': "l \<in> set (map location T')"
      by (simp_all add: sets)
    have r: "?r \<in> set T" "location ?r = l"
      "date ?r = Max (date ` {s \<in> set T. location s = l})"
      using latest_kept [OF a l] by simp_all
    have r': "?r' \<in> set T" "location ?r' = l"
      "date ?r' = Max (date ` {s \<in> set T. location s = l})"
      using latest_kept [OF a' l'] by (simp_all add: sets)
    show ?thesis
      using inj_onD [OF inj, of ?r' ?r] r r' by simp
  qed
  then show ?thesis
    unfolding latest_eq_map [OF a] latest_eq_map [OF a'] keys by simp
qed

lemma top_countries_determined:
  assumes "sorter alg" "sorter alg'" "distinct (map total_cases T)"
  shows "top_countries alg T n = top_countries alg' T n"
proof -
  have "distinct (map total_cases (rev T))"
    using assms(3) by (simp add: rev_map [symmetric])
  then have "alg total_cases (rev T) = alg' total_cases (rev T)"
    using assms(1,2) by (intro sorter_determined)
  then show ?thesis
    by (simp add: top_countries_def sort_values_desc_def)
qed

text \<open>
  C5, as amended: the two sorts run the library's default algorithm, which is not stable,
  so the order of rows with equal keys is the algorithm's. Under every algorithm of the
  contract the rows with a given \<open>total_cases\<close> in the sorted ranking input, and the
  rows with a given date in the sorted aggregation input, are those of the input, in
  some order, and the row kept for a location is one of the rows of that location with
  its maximum date. When no two rows share \<open>total_cases\<close> the ranking does not depend on
  the algorithm, and when no two rows share location and date the aggregation does not
  either. Under a stable algorithm rows with equal keys keep their input order: the rows
  of a given \<open>total_cases\<close> that reach the first \<open>n\<close> are the earliest of the input,
  and the row kept for a location is the last row of the input with that location and
  its date.
\<close>

theorem sort_ties:
  assumes "sorter alg"
  shows "mset (filter (\<lambda>r. total_cases r = c) (sort_values_desc alg total_cases T)) =
     mset (filter (\<lambda>r. total_cases r = c) T) \<and>
   mset (filter (\<lambda>r. date r = d) (sort_values alg date T)) =
     mset (filter (\<lambda>r. date r = d) T) \<and>
   (\<forall>r \<in> set (latest alg T).
      r \<in> set T \<and> date r = Max (date ` {s \<in> set T. location s = location r})) \<and>
   (distinct (map total_cases T) \<longrightarrow> top_countries alg T n = top_countries stable_sort T n) \<and>
   (distinct (map (\<lambda>r. (location r, date r)) T) \<longrightarrow> latest alg T = latest stable_sort T) \<and>
   filter (\<lambda>r. total_cases r = c) (sort_values_desc stable_sort total_cases T) =
     filter (\<lambda>r. total_cases r = c) T \<and>
   prefix (filter (\<lambda>r. total_cases r = c) (top_countries stable_sort T n))
     (filter (\<lambda>r. total_cases r = c) T) \<and>
   filter (\<lambda>r. date r = d) (sort_values stable_sort date T) = filter (\<lambda>r. date r = d) T \<and>
   (\<forall>r \<in> set (latest stable_sort T).
      r = last (filter (\<lambda>s. location s = location r \<and> date s = date r) T))"
proof -
  have a: "mset (filter (\<lambda>r. total_cases r = c) (sort_values_desc alg total_cases T)) =
     mset (filter (\<lambda>r. total_cases r = c) T)"
    using sort_values_desc_mset [OF assms, of total_cases T] by simp
  have b: "mset (filter (\<lambda>r. date r = d) (sort_values alg date T)) =
     mset (filter (\<lambda>r. date r = d) T)"
    using assms by (simp add: sort_values_def sorter_mset)
  have k: "\<forall>r \<in> set (latest alg T).
      r \<in> set T \<and> date r = Max (date ` {s \<in> set T. location s = location r})"
    using latest_row_max [OF assms] by blast
  have e: "top_countries alg T n = top_countries stable_sort T n"
    if "distinct (map total_cases T)"
    using assms sorter_stable_sort that by (rule top_countries_determined)
  have f: "latest alg T = latest stable_sort T"
    if "distinct (map (\<lambda>r. (location r, date r)) T)"
    using sorter_stable_sort assms refl that by (rule latest_determined)
  have g: "filter (\<lambda>r. total_cases r = c) (sort_values_desc stable_sort total_cases T) =
     filter (\<lambda>r. total_cases r = c) T"
    by (rule stable_sort_desc_ties)
  have "prefix
     (filter (\<lambda>r. total_cases r = c) (take n (sort_values_desc stable_sort total_cases T)))
     (filter (\<lambda>r. total_cases r = c) (sort_values_desc stable_sort total_cases T))"
    by (intro filter_mono_prefix take_is_prefix)
  then have h: "prefix (filter (\<lambda>r. total_cases r = c) (top_countries stable_sort T n))
     (filter (\<lambda>r. total_cases r = c) T)"
    by (simp add: top_countries_def g)
  have i: "filter (\<lambda>r. date r = d) (sort_values stable_sort date T) =
     filter (\<lambda>r. date r = d) T"
    by (rule stable_sort_ties)
  have j: "\<forall>r \<in> set (latest stable_sort T).
      r = last (filter (\<lambda>s. location s = location r \<and> date s = date r) T)"
    using stable_latest_row by blast
  from a b k e f g h i j show ?thesis by blast
qed

theorem sort_ties_witness:
  "map location (top_countries stable_sort tied 3) = [''C'', ''D'', ''A''] \<and>
   filter (\<lambda>r. total_cases r = 1) (top_countries stable_sort tied 3) =
     [\<lparr>date = 0, location = ''A'', total_cases = 1, total_deaths = 0\<rparr>] \<and>
   last (latest stable_sort sample) =
     \<lparr>date = 3, location = ''USA'', total_cases = 10, total_deaths = 3\<rparr> \<and>
   last (filter (\<lambda>s. location s = ''USA'' \<and> date s = 3) sample) =
     \<lparr>date = 3, location = ''USA'', total_cases = 10, total_deaths = 3\<rparr> \<and>
   latest reversing_sort (take 2 sample) = latest stable_sort (take 2 sample)"
proof -
  have d: "distinct (map (\<lambda>r. (location r, date r)) (take 2 sample))"
    by (simp add: sample_def)
  have e: "latest reversing_sort (take 2 sample) = latest stable_sort (take 2 sample)"
    using sort_ties [OF sorter_reversing_sort, where T = "take 2 sample"] d by blast
  have v: "map location (top_countries stable_sort tied 3) = [''C'', ''D'', ''A'']"
    "filter (\<lambda>r. total_cases r = 1) (top_countries stable_sort tied 3) =
     [\<lparr>date = 0, location = ''A'', total_cases = 1, total_deaths = 0\<rparr>]"
    "last (latest stable_sort sample) =
     \<lparr>date = 3, location = ''USA'', total_cases = 10, total_deaths = 3\<rparr>"
    "last (filter (\<lambda>s. location s = ''USA'' \<and> date s = 3) sample) =
     \<lparr>date = 3, location = ''USA'', total_cases = 10, total_deaths = 3\<rparr>"
    by (simp_all add: sample_def tied_def top_countries_def sort_values_desc_def latest_def
        groupby_last_def sort_values_def stable_sort_def)
  from v e show ?thesis by (intro conjI)
qed

theorem sort_stability_counterexample:
  "sort_values_desc reversing_sort total_cases tied =
     [\<lparr>date = 0, location = ''D'', total_cases = 2, total_deaths = 3\<rparr>,
      \<lparr>date = 0, location = ''C'', total_cases = 2, total_deaths = 2\<rparr>,
      \<lparr>date = 0, location = ''B'', total_cases = 1, total_deaths = 1\<rparr>,
      \<lparr>date = 0, location = ''A'', total_cases = 1, total_deaths = 0\<rparr>] \<and>
   filter (\<lambda>r. total_cases r = 2) (sort_values_desc reversing_sort total_cases tied) \<noteq>
     filter (\<lambda>r. total_cases r = 2) tied \<and>
   top_countries reversing_sort tied 1 =
     [\<lparr>date = 0, location = ''D'', total_cases = 2, total_deaths = 3\<rparr>] \<and>
   hd (filter (\<lambda>r. total_cases r = 2) tied) =
     \<lparr>date = 0, location = ''C'', total_cases = 2, total_deaths = 2\<rparr> \<and>
   sort_values reversing_sort date sample =
     [\<lparr>date = 0, location = ''India'', total_cases = 12, total_deaths = 5\<rparr>,
      \<lparr>date = 1, location = ''India'', total_cases = 10, total_deaths = 2\<rparr>,
      \<lparr>date = 2, location = ''UK'', total_cases = 12, total_deaths = 4\<rparr>,
      \<lparr>date = 3, location = ''USA'', total_cases = 10, total_deaths = 3\<rparr>,
      \<lparr>date = 3, location = ''USA'', total_cases = 7, total_deaths = 1\<rparr>] \<and>
   filter (\<lambda>r. date r = 3) (sort_values reversing_sort date sample) \<noteq>
     filter (\<lambda>r. date r = 3) sample \<and>
   last (latest reversing_sort sample) =
     \<lparr>date = 3, location = ''USA'', total_cases = 7, total_deaths = 1\<rparr> \<and>
   last (filter (\<lambda>s. location s = ''USA'' \<and> date s = 3) sample) =
     \<lparr>date = 3, location = ''USA'', total_cases = 10, total_deaths = 3\<rparr>"
  by (simp add: sample_def tied_def top_countries_def sort_values_desc_def latest_def
      groupby_last_def sort_values_def reversing_sort_def)

section \<open>Order of the aggregated table\<close>



section \<open>Properties of the dataset provider\<close>

lemma DataFrame_columns:
  assumes "length ds = n" "length ls = n" "length cs = n" "length ts = n"
  shows "map date (DataFrame ds ls cs ts) = ds"
    and "map location (DataFrame ds ls cs ts) = ls"
    and "length (DataFrame ds ls cs ts) = n"
proof -
  have "map date (DataFrame ds ls cs ts) = map fst (zip ds (zip ls (zip cs ts)))"
    by (simp add: DataFrame_def case_prod_beta)
  also have "\<dots> = ds" using assms by simp
  finally show "map date (DataFrame ds ls cs ts) = ds" .
  have "map location (DataFrame ds ls cs ts) = map fst (map snd (zip ds (zip ls (zip cs ts))))"
    by (simp add: DataFrame_def case_prod_beta)
  also have "\<dots> = map fst (zip ls (zip cs ts))" using assms by simp
  also have "\<dots> = ls" using assms by simp
  finally show "map location (DataFrame ds ls cs ts) = ls" .
  show "length (DataFrame ds ls cs ts) = n"
    using assms by (simp add: DataFrame_def)
qed

lemma create_local_data_file:
  "pickle_file (create_local_data s) =
     Some (DataFrame (date_range 0 600)
       (replicate 200 ''India'' @ replicate 200 ''USA'' @ replicate 200 ''UK'')
       (fst (randint 100 100000 600 (rng s)))
       (fst (randint 1 2000 600 (snd (randint 100 100000 600 (rng s))))))"
  by (simp add: create_local_data_def Let_def case_prod_beta)

lemma randint_length: "length (fst (randint low high n g)) = n"
  by (simp add: randint_def)

lemma block_last:
  assumes "xs \<noteq> []"
  shows "date (last xs) = last (map date xs)" and "location (last xs) = last (map location xs)"
  using assms by (simp_all add: last_map)

lemma latest_of_blocks:
  assumes alg: "sorter alg"
    and dates: "map date df = map int [0..<600]"
    and locs: "map location df =
      replicate 200 ''India'' @ replicate 200 ''USA'' @ replicate 200 ''UK''"
  shows "map (\<lambda>r. (date r, location r))
      (latest alg (df_filtered df (min_date df) (max_date df))) =
    [(199, ''India''), (599, ''UK''), (399, ''USA'')]"
proof -
  define A where "A = take 200 df"
  define B where "B = take 200 (drop 200 df)"
  define C where "C = drop 400 df"
  have len: "length df = 600"
    using arg_cong [OF dates, of length] by simp
  have df: "df = A @ B @ C"
    unfolding A_def B_def C_def
    by (metis append_take_drop_id drop_drop numeral_Bit0 add.commute
        semiring_norm(2) semiring_norm(6) numeral_plus_numeral)
  have dset: "set (map date df) = int ` {0..<600}"
    unfolding dates by simp
  have "Min (int ` {0..<600::nat}) = 0"
    by (intro Min_eqI) auto
  then have mn: "min_date df = 0"
    by (simp add: min_date_def dset del: set_map)
  have "Max (int ` {0..<600::nat}) = 599"
    by (intro Max_eqI) auto
  then have mx: "max_date df = 599"
    by (simp add: max_date_def dset del: set_map)
  have "\<forall>r \<in> set df. 0 \<le> date r \<and> date r \<le> 599"
  proof
    fix r assume "r \<in> set df"
    then have "date r \<in> set (map date df)" by simp
    then show "0 \<le> date r \<and> date r \<le> 599"
      unfolding dset by auto
  qed
  then have filt: "df_filtered df 0 599 = df"
    by (simp add: df_filtered_def)
  have "sorted (map date df)"
    unfolding dates by (simp add: sorted_map sorted_wrt_iff_nth_less)
  moreover have "distinct (map date df)"
    unfolding dates by (simp add: distinct_map inj_on_def)
  ultimately have srt: "sort_values alg date df = df"
    unfolding sort_values_def using alg by (intro sorter_sorted_id)
  have keys: "sort (remdups (map location df)) = [''India'', ''UK'', ''USA'']"
    unfolding locs by (intro sorted_distinct_set_unique) auto
  have lA: "map location A = replicate 200 ''India''"
    unfolding A_def by (simp add: take_map [symmetric] locs)
  have lB: "map location B = replicate 200 ''USA''"
    unfolding B_def by (simp add: take_map [symmetric] drop_map [symmetric] locs)
  have lC: "map location C = replicate 200 ''UK''"
    unfolding C_def by (simp add: drop_map [symmetric] locs)
  have dA: "map date A = map int [0..<200]"
    unfolding A_def by (simp add: take_map [symmetric] dates) (simp add: take_map)
  have dB: "map date B = map int [200..<400]"
    unfolding B_def by (simp add: take_map [symmetric] drop_map [symmetric] dates)
      (simp add: take_map drop_map)
  have dC: "map date C = map int [400..<600]"
    unfolding C_def by (simp add: drop_map [symmetric] dates) (simp add: drop_map)
  have inA: "\<forall>r \<in> set A. location r = ''India''"
    using arg_cong [OF lA, of set] by auto
  have inB: "\<forall>r \<in> set B. location r = ''USA''"
    using arg_cong [OF lB, of set] by auto
  have inC: "\<forall>r \<in> set C. location r = ''UK''"
    using arg_cong [OF lC, of set] by auto
  have fI: "filter (\<lambda>r. location r = ''India'') df = A"
    unfolding df using inA inB inC by (simp add: filter_empty_conv)
  have fS: "filter (\<lambda>r. location r = ''USA'') df = B"
    unfolding df using inA inB inC by (simp add: filter_empty_conv)
  have fK: "filter (\<lambda>r. location r = ''UK'') df = C"
    unfolding df using inA inB inC by (simp add: filter_empty_conv)
  have neA: "A \<noteq> []" and neB: "B \<noteq> []" and neC: "C \<noteq> []"
    using len by (auto simp: A_def B_def C_def)
  have "date (last A) = 199" "location (last A) = ''India''"
    using block_last [OF neA] by (simp_all add: dA lA last_map)
  moreover have "date (last B) = 399" "location (last B) = ''USA''"
    using block_last [OF neB] by (simp_all add: dB lB last_map)
  moreover have "date (last C) = 599" "location (last C) = ''UK''"
    using block_last [OF neC] by (simp_all add: dC lC last_map)
  ultimately show ?thesis
    by (simp add: mn mx filt latest_def srt groupby_last_def keys fI fS fK)
qed

lemma day_numbers:
  "isoformat 0 = ''2020-01-01'' \<and> isoformat 199 = ''2020-07-18'' \<and>
   isoformat 399 = ''2021-02-03'' \<and> isoformat 599 = ''2021-08-22''"
  by code_simp

lemma synthesized_dataset_len:
  "\<exists>df. pickle_file (create_local_data s) = Some df \<and> length df = 600"
proof -
  have "length (DataFrame (date_range 0 600)
       (replicate 200 ''India'' @ replicate 200 ''USA'' @ replicate 200 ''UK'')
       (fst (randint 100 100000 600 (rng s)))
       (fst (randint 1 2000 600 (snd (randint 100 100000 600 (rng s)))))) = 600"
    by (rule DataFrame_columns(3) [where n = 600]; simp add: randint_length date_range_def)
  then show ?thesis
    using create_local_data_file [of s] by simp
qed

text \<open>
  C4: whatever the generator draws and whatever algorithm of the contract sorts, the
  dataset that \<open>create_local_data\<close> writes has exactly 600 rows, dated day 0 to day 599
  in order, rows 0-199 labelled India, rows 200-399 USA and rows 400-599 UK; filtering it
  to its full date range and taking the latest row per location yields exactly three
  rows: India's dated day 199, UK's dated day 599 and USA's dated day 399.
\<close>

theorem synthesized_dataset:
  assumes "sorter alg"
  shows "\<exists>df. pickle_file (create_local_data s) = Some df \<and>
     length df = 600 \<and>
     map date df = map int [0..<600] \<and>
     map location df = replicate 200 ''India'' @ replicate 200 ''USA'' @ replicate 200 ''UK'' \<and>
     map (\<lambda>r. (date r, location r))
       (latest alg (df_filtered df (min_date df) (max_date df))) =
       [(199, ''India''), (599, ''UK''), (399, ''USA'')]"
proof -
  define df where "df = DataFrame (date_range 0 600)
       (replicate 200 ''India'' @ replicate 200 ''USA'' @ replicate 200 ''UK'')
       (fst (randint 100 100000 600 (rng s)))
       (fst (randint 1 2000 600 (snd (randint 100 100000 600 (rng s)))))"
  have written: "pickle_file (create_local_data s) = Some df"
    unfolding df_def by (rule create_local_data_file)
  have cols: "map date df = date_range 0 600"
    "map location df = replicate 200 ''India'' @ replicate 200 ''USA'' @ replicate 200 ''UK''"
    "length df = 600"
    unfolding df_def
    by (rule DataFrame_columns [where n = 600]; simp add: randint_length date_range_def)+
  have dates: "map date df = map int [0..<600]"
    using cols(1) by (simp add: date_range_def)
  have res: "map (\<lambda>r. (date r, location r))
       (latest alg (df_filtered df (min_date df) (max_date df))) =
       [(199, ''India''), (599, ''UK''), (399, ''USA'')]"
    using assms dates cols(2) by (rule latest_of_blocks)
  show ?thesis
  proof (intro exI [of _ df] conjI)
    show "pickle_file (create_local_data s) = Some df" by (fact written)
    show "length df = 600" by (fact cols(3))
    show "map date df = map int [0..<600]" by (fact dates)
    show "map location df =
      replicate 200 ''India'' @ replicate 200 ''USA'' @ replicate 200 ''UK''" by (fact cols(2))
    show "map (\<lambda>r. (date r, location r))
       (latest alg (df_filtered df (min_date df) (max_date df))) =
       [(199, ''India''), (599, ''UK''), (399, ''USA'')]" by (fact res)
  qed
qed

theorem synthesized_dataset_witness:
  "\<exists>df. pickle_file (create_local_data fresh_store) = Some df \<and>
     length df = 600 \<and>
     map date df = map int [0..<600] \<and>
     map location df = replicate 200 ''India'' @ replicate 200 ''USA'' @ replicate 200 ''UK'' \<and>
     map (\<lambda>r. (date r, location r))
       (latest reversing_sort (df_filtered df (min_date df) (max_date df))) =
       [(199, ''India''), (599, ''UK''), (399, ''USA'')]"
  by (rule synthesized_dataset [OF sorter_reversing_sort])

lemma load_data_body_file:
  "pickle_file (snd (load_data_body s)) = Some (fst (load_data_body s))"
proof (cases "pickle_file s")
  case None
  obtain df where "pickle_file (create_local_data s) = Some df"
    using create_local_data_file by blast
  with None show ?thesis
    by (simp add: load_data_body_def)
next
  case (Some df)
  then show ?thesis
    by (simp add: load_data_body_def)
qed

lemma load_data_body_again: "load_data_body (snd (load_data_body s)) = load_data_body s"
proof -
  obtain df s' where b: "load_data_body s = (df, s')"
    by (cases "load_data_body s")
  then have "pickle_file s' = Some df"
    using load_data_body_file [of s] by simp
  then have "load_data_body s' = (df, s')"
    by (simp add: load_data_body_def)
  with b show ?thesis by simp
qed

lemma load_data_body_existing:
  "pickle_file s = Some df \<Longrightarrow> load_data_body s = (df, s)"
  by (simp add: load_data_body_def)

lemma load_data_body_missing:
  "pickle_file s = None \<Longrightarrow>
     load_data_body s = (the (pickle_file (create_local_data s)), create_local_data s)"
  using create_local_data_file [of s] by (simp add: load_data_body_def)

lemma create_local_data_rng: "rng (create_local_data s) i = rng s (i + 1200)"
  by (simp add: create_local_data_def Let_def case_prod_beta randint_def add.commute
      add.left_commute)

text \<open>
  C7: a call of \<open>load_data\<close> leaves its result in the memo, and a second call in the
  state the first call left returns that memo: the same table, with the state (memo, file
  and random generator) as it was, so no random data is drawn again. In more detail, a
  call with a memo returns the memo and changes nothing; a call without a memo returns
  what the body returns, which is the content of the cache file when there is one (again
  with file and generator untouched) and otherwise the table that \<open>create_local_data\<close>
  has just written. The same holds for the undecorated body through the file alone.
\<close>

theorem load_data_idempotent:
  "load_data (snd (load_data s)) = load_data s \<and>
   cache (snd (load_data s)) = Some (fst (load_data s)) \<and>
   fst (load_data (snd (load_data s))) = the (cache (snd (load_data s))) \<and>
   rng (snd (load_data (snd (load_data s)))) = rng (snd (load_data s)) \<and>
   (\<forall>df. cache s = Some df \<longrightarrow> load_data s = (df, s)) \<and>
   (cache s = None \<longrightarrow>
      fst (load_data s) = fst (load_data_body s) \<and>
      snd (load_data s) = (snd (load_data_body s))\<lparr>cache := Some (fst (load_data_body s))\<rparr>) \<and>
   (\<forall>df. pickle_file s = Some df \<longrightarrow> load_data_body s = (df, s)) \<and>
   (pickle_file s = None \<longrightarrow>
      snd (load_data_body s) = create_local_data s \<and>
      pickle_file (create_local_data s) = Some (fst (load_data_body s))) \<and>
   pickle_file (snd (load_data_body s)) = Some (fst (load_data_body s)) \<and>
   load_data_body (snd (load_data_body s)) = load_data_body s"
proof -
  have memo: "load_data s = (df, s)" if "cache s = Some df" for df
    using that by (simp add: load_data_def)
  have miss: "fst (load_data s) = fst (load_data_body s) \<and>
      snd (load_data s) = (snd (load_data_body s))\<lparr>cache := Some (fst (load_data_body s))\<rparr>"
    if "cache s = None"
    using that by (simp add: load_data_def case_prod_beta)
  have kept: "cache (snd (load_data s)) = Some (fst (load_data s))"
    by (cases "cache s") (simp_all add: load_data_def case_prod_beta)
  have again: "load_data (snd (load_data s)) = load_data s"
    by (cases "cache s") (simp_all add: load_data_def case_prod_beta)
  have existing: "load_data_body s = (df, s)" if "pickle_file s = Some df" for df
    using that by (rule load_data_body_existing)
  have missing: "snd (load_data_body s) = create_local_data s \<and>
      pickle_file (create_local_data s) = Some (fst (load_data_body s))"
    if "pickle_file s = None"
    using that create_local_data_file [of s] by (simp add: load_data_body_def)
  show ?thesis
    using memo miss kept again existing missing load_data_body_file [of s]
      load_data_body_again [of s]
    by simp
qed

theorem load_data_idempotent_witness:
  "rng (snd (load_data fresh_store)) 0 = 1200 \<and>
   rng (snd (load_data (snd (load_data fresh_store)))) 0 = 1200 \<and>
   cache (snd (load_data fresh_store)) = pickle_file (snd (load_data fresh_store)) \<and>
   load_data (snd (load_data fresh_store)) = load_data fresh_store \<and>
   length (fst (load_data (snd (load_data fresh_store)))) = 600"
proof -
  have f: "cache fresh_store = None" "pickle_file fresh_store = None" "rng fresh_store = int"
    by (simp_all add: fresh_store_def)
  have b: "snd (load_data_body fresh_store) = create_local_data fresh_store"
    "pickle_file (create_local_data fresh_store) = Some (fst (load_data_body fresh_store))"
    using load_data_idempotent [of fresh_store] f by simp_all
  have s: "fst (load_data fresh_store) = fst (load_data_body fresh_store)"
    "snd (load_data fresh_store) =
      (create_local_data fresh_store)\<lparr>cache := Some (fst (load_data_body fresh_store))\<rparr>"
    using load_data_idempotent [of fresh_store] f b(1) by simp_all
  have r: "rng (snd (load_data fresh_store)) 0 = 1200"
    by (simp add: s create_local_data_rng f)
  have a: "load_data (snd (load_data fresh_store)) = load_data fresh_store"
    using load_data_idempotent [of fresh_store] by simp
  have c: "cache (snd (load_data fresh_store)) = pickle_file (snd (load_data fresh_store))"
    by (simp add: s b)
  obtain df where "pickle_file (create_local_data fresh_store) = Some df" "length df = 600"
    using synthesized_dataset_len [of fresh_store] by blast
  then have l: "length (fst (load_data fresh_store)) = 600"
    using b(2) s(1) by simp
  from r a c l show ?thesis by simp
qed

section \<open>Properties of the download artifact\<close>

subsection \<open>The scanner reads back what the encoder writes\<close>

lemma scan_quoted:
  "csv_scan InQuoted fld rec recs (escape_quotes f @ CHR 0x22 # rest) =
     csv_scan QuoteSeen (rev f @ fld) rec recs rest"
proof (induction f arbitrary: fld)
  case Nil
  then show ?case by (simp add: escape_quotes_def)
next
  case (Cons c f)
  show ?case
    using Cons.IH [of "c # fld"] by (auto simp: escape_quotes_def)
qed

lemma scan_plain:
  assumes "\<not> list_ex special f"
  shows "csv_scan InField fld rec recs (f @ rest) = csv_scan InField (rev f @ fld) rec recs rest"
  using assms
proof (induction f arbitrary: fld)
  case Nil
  then show ?case by simp
next
  case (Cons c f)
  then have "\<not> special c" and f: "\<not> list_ex special f"
    by simp_all
  then have c: "c \<noteq> CHR '',''" "c \<noteq> CHR 0x0A"
    by (simp_all add: special_def)
  show ?case using c Cons.IH [OF f, of "c # fld"] by simp
qed

lemma scan_field_start:
  assumes "st = StartRecord \<or> st = StartField"
  shows "csv_scan st [] rec recs (quote_field f @ rest) =
    (if list_ex special f then csv_scan QuoteSeen (rev f) rec recs rest
     else if f = [] then csv_scan st [] rec recs rest
     else csv_scan InField (rev f) rec recs rest)"
proof (cases "list_ex special f")
  case True
  then show ?thesis
    using assms scan_quoted [of "[]" rec recs f rest] by (auto simp: quote_field_def)
next
  case False
  show ?thesis
  proof (cases f)
    case Nil
    with False show ?thesis by (simp add: quote_field_def)
  next
    case (Cons c f')
    with False have "\<not> special c" and f': "\<not> list_ex special f'"
      by simp_all
    then have c: "c \<noteq> CHR '',''" "c \<noteq> CHR 0x0A" "c \<noteq> CHR 0x22"
      by (simp_all add: special_def)
    have "csv_scan st [] rec recs (c # f' @ rest) = csv_scan InField [c] rec recs (f' @ rest)"
      using assms c by auto
    also have "\<dots> = csv_scan InField (rev f' @ [c]) rec recs rest"
      using f' by (rule scan_plain)
    finally show ?thesis using False Cons by (simp add: quote_field_def)
  qed
qed

lemma scan_field_comma:
  assumes "st = StartRecord \<or> st = StartField"
  shows "csv_scan st [] rec recs (quote_field f @ CHR '','' # rest) =
    csv_scan StartField [] (f # rec) recs rest"
  using assms by (auto simp: scan_field_start)

lemma scan_field_newline:
  assumes "st = StartRecord \<or> st = StartField"
  shows "csv_scan st [] rec recs (quote_field f @ CHR 0x0A # rest) =
    csv_scan StartRecord [] [] (rev (f # rec) # recs) rest"
  using assms by (auto simp: scan_field_start)

lemma scan_fields:
  assumes "fs \<noteq> []" "st = StartRecord \<or> st = StartField"
  shows "csv_scan st [] rec recs (join_fields (map quote_field fs) @ CHR 0x0A # rest) =
    csv_scan StartRecord [] [] (rev (rev fs @ rec) # recs) rest"
  using assms
proof (induction fs arbitrary: st rec rule: list_nonempty_induct)
  case (single f)
  then show ?case by (simp add: scan_field_newline)
next
  case (cons f fs)
  then obtain g gs where fs: "fs = g # gs" by (cases fs) auto
  have "csv_scan st [] rec recs (join_fields (map quote_field (f # fs)) @ CHR 0x0A # rest) =
      csv_scan st [] rec recs
        (quote_field f @ CHR '','' # (join_fields (map quote_field fs) @ CHR 0x0A # rest))"
    by (simp add: fs)
  also have "\<dots> = csv_scan StartField [] (f # rec) recs
      (join_fields (map quote_field fs) @ CHR 0x0A # rest)"
    using cons.prems by (rule scan_field_comma)
  also have "\<dots> = csv_scan StartRecord [] [] (rev (rev fs @ f # rec) # recs) rest"
    by (rule cons.IH) simp
  finally show ?case by simp
qed

lemma scan_line:
  assumes "fs \<noteq> []"
  shows "csv_scan StartRecord [] [] recs (csv_line fs @ rest) =
    csv_scan StartRecord [] [] (fs # recs) rest"
  using scan_fields [OF assms, of StartRecord "[]" recs rest] by (simp add: csv_line_def)

lemma scan_lines:
  assumes "\<forall>fs \<in> set fss. fs \<noteq> []"
  shows "csv_scan StartRecord [] [] recs (concat (map csv_line fss)) = Some (rev recs @ fss)"
  using assms
proof (induction fss arbitrary: recs)
  case Nil
  then show ?case by simp
next
  case (Cons fs fss)
  then show ?case by (simp add: scan_line)
qed

subsection \<open>Integers in decimal\<close>

lemma digit_char_props:
  assumes "d < 10"
  shows "is_digit (digit_char d)" and "digit_val (digit_char d) = d"
proof -
  from assms have d: "d = 0 \<or> d = 1 \<or> d = 2 \<or> d = 3 \<or> d = 4 \<or> d = 5 \<or> d = 6
      \<or> d = 7 \<or> d = 8 \<or> d = 9"
    by arith
  show "is_digit (digit_char d)"
    using d by (auto simp: digit_char_def is_digit_def)
  show "digit_val (digit_char d) = d"
    using d by (auto simp: digit_char_def digit_val_def)
qed

declare nat_digits.simps [simp del]

lemma nat_digits_parse:
  "nat_digits n \<noteq> [] \<and> list_all is_digit (nat_digits n) \<and>
   foldl (\<lambda>a c. 10 * a + digit_val c) 0 (nat_digits n) = n"
proof (induction n rule: nat_digits.induct)
  case (1 n)
  show ?case
  proof (cases "n < 10")
    case True
    then show ?thesis
      by (simp add: nat_digits.simps [of n] digit_char_props)
  next
    case False
    then have ih: "nat_digits (n div 10) \<noteq> []" "list_all is_digit (nat_digits (n div 10))"
      "foldl (\<lambda>a c. 10 * a + digit_val c) 0 (nat_digits (n div 10)) = n div 10"
      using "1.IH" by simp_all
    have "n mod 10 < 10" by simp
    then have d: "is_digit (digit_char (n mod 10))" "digit_val (digit_char (n mod 10)) = n mod 10"
      by (rule digit_char_props)+
    from False have unf: "nat_digits n = nat_digits (n div 10) @ [digit_char (n mod 10)]"
      by (simp add: nat_digits.simps [of n])
    show ?thesis
      unfolding unf using ih d by simp
  qed
qed

lemma parse_nat_digits: "parse_nat (nat_digits n) = Some n"
  using nat_digits_parse [of n] by (simp add: parse_nat_def)

lemma nat_digits_not_minus: "nat_digits n = c # cs \<Longrightarrow> c \<noteq> CHR ''-''"
proof
  assume a: "nat_digits n = c # cs" and "c = CHR ''-''"
  then have "list_all is_digit (CHR ''-'' # cs)"
    using nat_digits_parse [of n] by simp
  then show False by (simp add: is_digit_def)
qed

lemma parse_str_int: "parse_int (str_int i) = Some i"
proof (cases "i < 0")
  case True
  then show ?thesis
    by (simp add: parse_int_def str_int_def parse_nat_digits)
next
  case False
  obtain c cs where ds: "nat_digits (nat i) = c # cs"
    using nat_digits_parse [of "nat i"] by (cases "nat_digits (nat i)") auto
  then have "c \<noteq> CHR ''-''" by (rule nat_digits_not_minus)
  moreover have "parse_nat (c # cs) = Some (nat i)"
    using parse_nat_digits [of "nat i"] ds by simp
  ultimately show ?thesis
    using False ds by (simp add: parse_int_def str_int_def)
qed

subsection \<open>Round trip\<close>

lemma row_of_row_fields:
  assumes "strptime (strftime (date r)) = Some (date r)"
  shows "row_of_fields strptime (row_fields strftime r) = Some r"
  using assms by (simp add: row_of_fields_def row_fields_def parse_str_int)

lemma those_rows:
  assumes "\<forall>r \<in> set T. strptime (strftime (date r)) = Some (date r)"
  shows "those (map (row_of_fields strptime) (map (row_fields strftime) T)) = Some T"
  using assms by (induction T) (simp_all add: row_of_row_fields)

text \<open>
  C6: for every table whose dates the date text round-trips (reading the text written for
  a date of the table gives that date back), reading the bytes of the CSV download
  (header row, comma-separated, no index column, UTF-8) yields the table itself: the
  same columns, the same values, the rows in the same order.
\<close>

theorem csv_round_trip:
  assumes "\<forall>r \<in> set T. strptime (strftime (date r)) = Some (date r)"
  shows "read_csv strptime (to_csv_bytes strftime T) = Some T"
proof -
  let ?fss = "csv_header # map (row_fields strftime) T"
  have "to_csv_bytes strftime T = concat (map csv_line ?fss)"
    by (simp add: to_csv_bytes_def to_csv_def o_def)
  moreover have "\<forall>fs \<in> set ?fss. fs \<noteq> []"
    by (auto simp: csv_header_def row_fields_def)
  ultimately have "csv_scan StartRecord [] [] [] (to_csv_bytes strftime T) = Some ?fss"
    using scan_lines [of ?fss "[]"] by simp
  then show ?thesis
    using those_rows [OF assms] by (simp add: read_csv_def)
qed

theorem csv_round_trip_witness:
  "to_csv_bytes isoformat quoted_sample =
     ''date,location,total_cases,total_deaths'' @ [CHR 0x0A] @
     ''2020-07-18,'' @ [CHR 0x22] @ ''Korea, '' @ [CHR 0x22, CHR 0x22] @ ''South'' @
       [CHR 0x22, CHR 0x22, CHR 0x22] @ '',100,0'' @ [CHR 0x0A] @
     ''2021-08-22,'' @ [CHR 0x22] @ ''New'' @ [CHR 0x0A] @ ''Zealand'' @ [CHR 0x22] @
       '',99999,1999'' @ [CHR 0x0A] @
     ''2019-12-31,,-5,12'' @ [CHR 0x0A] \<and>
   read_csv fromisoformat (to_csv_bytes isoformat quoted_sample) = Some quoted_sample"
proof -
  have w: "isoformat 199 = ''2020-07-18''" "isoformat 599 = ''2021-08-22''"
    "isoformat (- 1) = ''2019-12-31''"
    by code_simp+
  have r: "fromisoformat ''2020-07-18'' = Some 199" "fromisoformat ''2021-08-22'' = Some 599"
    "fromisoformat ''2019-12-31'' = Some (- 1)"
    by code_simp+
  have dates: "\<forall>r \<in> set quoted_sample. fromisoformat (isoformat (date r)) = Some (date r)"
    by (simp add: quoted_sample_def w r)
  have bytes: "to_csv_bytes isoformat quoted_sample =
     ''date,location,total_cases,total_deaths'' @ [CHR 0x0A] @
     ''2020-07-18,'' @ [CHR 0x22] @ ''Korea, '' @ [CHR 0x22, CHR 0x22] @ ''South'' @
       [CHR 0x22, CHR 0x22, CHR 0x22] @ '',100,0'' @ [CHR 0x0A] @
     ''2021-08-22,'' @ [CHR 0x22] @ ''New'' @ [CHR 0x0A] @ ''Zealand'' @ [CHR 0x22] @
       '',99999,1999'' @ [CHR 0x0A] @
     ''2019-12-31,,-5,12'' @ [CHR 0x0A]"
    by (simp add: to_csv_bytes_def to_csv_def csv_line_def csv_header_def row_fields_def
        quote_field_def escape_quotes_def special_def quoted_sample_def w str_int_def
        nat_digits.simps digit_char_def)
  show ?thesis
    using csv_round_trip [of quoted_sample fromisoformat isoformat, OF dates] bytes by simp
qed

section \<open>Properties of the script\<close>

text \<open>
  C9: for every table \<open>T\<close> and dates \<open>a\<close>, \<open>b\<close>, the filtered table is a subsequence
  of \<open>T\<close>: its rows appear in the order they have in \<open>T\<close>; and after the script has run,
  the loaded frame is still \<open>T\<close>.
\<close>

theorem filter_order_preserving:
  "subseq (df_filtered T a b) T \<and>
   v_df_filtered (script alg f T a b n) = df_filtered T a b \<and>
   v_df (script alg f T a b n) = T"
  by (simp add: df_filtered_def script_def Let_def)

theorem filter_order_preserving_witness:
  "subseq
     [\<lparr>date = 1, location = ''India'', total_cases = 10, total_deaths = 2\<rparr>,
      \<lparr>date = 2, location = ''UK'', total_cases = 12, total_deaths = 4\<rparr>] sample \<and>
   v_df (script reversing_sort isoformat sample 1 2 5) = sample"
  using filter_order_preserving [of sample 1 2 reversing_sort isoformat 5]
  by (simp add: sample_def df_filtered_def)

lemma to_csv_bytes_Nil:
  "to_csv_bytes f [] = ''date,location,total_cases,total_deaths'' @ [CHR 0x0A]"
  by (simp add: to_csv_bytes_def to_csv_def csv_line_def csv_header_def quote_field_def special_def)

text \<open>
  C8: when the date range lies entirely before the first date or entirely after the last
  date of the table, the filtered table is empty; and whenever the filtered table is
  empty, every later stage yields its empty result, whatever algorithm of the contract
  sorts: the latest-per-location table and the ranking are empty for every \<open>n\<close>, the
  row count and the location count are 0, and the CSV download is the header line alone.
\<close>

theorem empty_filter_tolerated:
  assumes "sorter alg"
  shows "((\<forall>r \<in> set T. b < date r) \<or> (\<forall>r \<in> set T. date r < a) \<longrightarrow> df_filtered T a b = []) \<and>
   (df_filtered T a b = [] \<longrightarrow>
      script alg f T a b n =
        \<lparr>v_df = T, v_df_filtered = [], v_latest = [], v_rows = 0, v_countries = 0,
         v_top_countries = [],
         v_download = ''date,location,total_cases,total_deaths'' @ [CHR 0x0A]\<rparr>)"
proof -
  have "df_filtered T a b = []" if "(\<forall>r \<in> set T. b < date r) \<or> (\<forall>r \<in> set T. date r < a)"
    using that by (auto simp: df_filtered_def filter_empty_conv)
  moreover have "script alg f T a b n =
        \<lparr>v_df = T, v_df_filtered = [], v_latest = [], v_rows = 0, v_countries = 0,
         v_top_countries = [],
         v_download = ''date,location,total_cases,total_deaths'' @ [CHR 0x0A]\<rparr>"
    if "df_filtered T a b = []"
    using that assms
    by (simp add: script_def Let_def latest_Nil top_countries_Nil to_csv_bytes_Nil
        rows_metric_def countries_metric_def)
  ultimately show ?thesis by blast
qed

theorem empty_filter_tolerated_witness:
  "script reversing_sort isoformat sample 4 9 30 =
     \<lparr>v_df = sample, v_df_filtered = [], v_latest = [], v_rows = 0, v_countries = 0,
      v_top_countries = [],
      v_download = ''date,location,total_cases,total_deaths'' @ [CHR 0x0A]\<rparr> \<and>
   script reversing_sort isoformat sample (- 9) (- 1) 5 =
     \<lparr>v_df = sample, v_df_filtered = [], v_latest = [], v_rows = 0, v_countries = 0,
      v_top_countries = [],
      v_download = ''date,location,total_cases,total_deaths'' @ [CHR 0x0A]\<rparr>"
proof -
  have after: "\<forall>r \<in> set sample. date r < 4" and before: "\<forall>r \<in> set sample. - 1 < date r"
    by (simp_all add: sample_def)
  show ?thesis
    using empty_filter_tolerated [OF sorter_reversing_sort, of sample 9 4 isoformat 30]
      empty_filter_tolerated [OF sorter_reversing_sort, of sample "- 1" "- 9" isoformat 5]
      after before
    by simp
qed

end
